theory Spec2Isabelle
  imports Main
begin

section \<open>Values, errors and function values\<close>

text \<open>
  The program computes with Python integers and with callables that take a tuple of
  positional arguments. A call of such a callable has three possible outcomes: it
  returns an integer, it raises, or it never returns. Three errors can be raised: a
  \<open>TypeError\<close> for a wrong number of arguments, an \<open>IndexError\<close> for an index outside a
  tuple, and a \<open>RecursionError\<close> when the call does not fit on the interpreter's stack.

  Every call of a Python function, and every resumption of a generator, occupies one
  frame of the interpreter's stack while it runs, and the interpreter raises
  \<open>RecursionError\<close> instead of entering a frame beyond its recursion limit. The outcome
  of a call therefore depends on how many further frames fit on the stack where the
  call is made. A function value is a map from that number and the argument list to
  \<open>outcome option\<close>: \<open>None\<close> is a call that never returns, \<open>Some (Inl e)\<close> a call that
  raises \<open>e\<close>, \<open>Some (Inr v)\<close> a call that returns \<open>v\<close>.
\<close>

datatype error = TypeError | IndexError | RecursionError

type_synonym outcome = "error + int"

type_synonym fn = "nat \<Rightarrow> int list \<Rightarrow> outcome option"

text \<open>
  The interpreter's default recursion limit, \<open>sys.getrecursionlimit()\<close>; the program
  never sets another one. No call has more than this many frames available.
\<close>

definition recursion_limit :: nat where
  "recursion_limit = 1000"

definition ret :: "int \<Rightarrow> outcome option" where
  "ret v = Some (Inr v)"

definition raise :: "error \<Rightarrow> outcome option" where
  "raise e = Some (Inl e)"

text \<open>
  Entering a frame where \<open>d\<close> more frames fit: with no room left the call raises
  \<open>RecursionError\<close>; otherwise the body runs with room for \<open>d - 1\<close> frames.
\<close>

definition enter :: "nat \<Rightarrow> (nat \<Rightarrow> outcome option) \<Rightarrow> outcome option" where
  "enter d body = (case d of 0 \<Rightarrow> raise RecursionError | Suc d' \<Rightarrow> body d')"

text \<open>
  The arguments of a call \<open>f(a1, ..., ak)\<close> are evaluated from left to right; the first
  one that raises or never returns decides the outcome of the whole call, and \<open>f\<close> is
  entered only with all of them evaluated.
\<close>

fun collect :: "outcome option list \<Rightarrow> (error + int list) option" where
  "collect [] = Some (Inr [])"
| "collect (m # ms) =
     (case m of
        None \<Rightarrow> None
      | Some (Inl e) \<Rightarrow> Some (Inl e)
      | Some (Inr v) \<Rightarrow>
          (case collect ms of
             None \<Rightarrow> None
           | Some (Inl e) \<Rightarrow> Some (Inl e)
           | Some (Inr vs) \<Rightarrow> Some (Inr (v # vs))))"

text \<open>
  The call expression \<open>f(a1, ..., ak)\<close>, evaluated where \<open>d\<close> more frames fit; \<open>ms\<close> are
  the outcomes of its argument expressions, evaluated at the same place.
\<close>

definition call :: "fn \<Rightarrow> nat \<Rightarrow> outcome option list \<Rightarrow> outcome option" where
  "call f d ms =
     (case collect ms of
        None \<Rightarrow> None
      | Some (Inl e) \<Rightarrow> Some (Inl e)
      | Some (Inr vs) \<Rightarrow> f d vs)"

text \<open>
  \<open>lambda x: body\<close> and \<open>lambda x, y: body\<close> (and \<open>def\<close> with one or two positional
  parameters). Where no frame fits, the call raises \<open>RecursionError\<close> whatever its
  arguments; where one fits, any other number of arguments is a \<open>TypeError\<close>, and
  otherwise the body runs in the frame.
\<close>

definition lambda1 :: "(nat \<Rightarrow> int \<Rightarrow> outcome option) \<Rightarrow> fn" where
  "lambda1 body d args =
     enter d (\<lambda>d'. case args of [x] \<Rightarrow> body d' x | _ \<Rightarrow> raise TypeError)"

definition lambda2 :: "(nat \<Rightarrow> int \<Rightarrow> int \<Rightarrow> outcome option) \<Rightarrow> fn" where
  "lambda2 body d args =
     enter d (\<lambda>d'. case args of [x, y] \<Rightarrow> body d' x y | _ \<Rightarrow> raise TypeError)"

section \<open>The built-in functions\<close>

text \<open>\<open>def zero(n): return 0\<close>; the name is bound again by the library below.\<close>

definition zero_builtin :: fn where
  "zero_builtin = lambda1 (\<lambda>d n. ret 0)"

text \<open>\<open>def incr(n): return n+1\<close>\<close>

definition incr :: fn where
  "incr = lambda1 (\<lambda>d n. ret (n + 1))"

text \<open>
  \<open>def proj(i, *args): return args[i]\<close>. A tuple of length \<open>l\<close> is indexed by
  \<open>0 .. l-1\<close> and, from its end, by \<open>-l .. -1\<close>.
\<close>

definition proj :: fn where
  "proj d a =
     enter d (\<lambda>d'.
       case a of
         [] \<Rightarrow> raise TypeError
       | i # args \<Rightarrow>
           (if 0 \<le> i \<and> i < int (length args) then ret (args ! nat i)
            else if - int (length args) \<le> i \<and> i < 0 then ret (args ! nat (int (length args) + i))
            else raise IndexError))"

text \<open>
  \<open>def comp(f, *hs)\<close> returns \<open>g\<close> with
  \<^verbatim>\<open>
  def g(*args):
      xs = (h(*args) for h in hs)
      return f(*xs)
  \<close>
  The call \<open>f(*xs)\<close> first runs the generator \<open>xs\<close> to its end, in a frame of its own
  inside the frame of \<open>g\<close>: every \<open>h\<close> is called there, on the same arguments and in
  order. Then \<open>f\<close> is called on the results from the frame of \<open>g\<close>.
\<close>

definition comp_fn :: "fn \<Rightarrow> fn list \<Rightarrow> fn" where
  "comp_fn f hs d args =
     enter d (\<lambda>d1.
       case d1 of
         0 \<Rightarrow> raise RecursionError
       | Suc d2 \<Rightarrow>
           (case collect (map (\<lambda>h. h d2 args) hs) of
              None \<Rightarrow> None
            | Some (Inl e) \<Rightarrow> Some (Inl e)
            | Some (Inr xs) \<Rightarrow> f d1 xs))"

text \<open>
  \<open>def rec(f, g)\<close> returns \<open>h\<close> with
  \<^verbatim>\<open>
  def h(n, *xs):
      if n == 0:
          return f(*xs)
      return g(n-1, h(n-1, *xs), *xs)
  \<close>
  \<open>rec_h f g d n xs\<close> is the call \<open>h(n, *xs)\<close> where \<open>d\<close> more frames fit. Each level of
  the recursion takes a frame, so the recursion ends after at most \<open>d\<close> levels, on a
  negative \<open>n\<close> too.
\<close>

fun rec_h :: "fn \<Rightarrow> fn \<Rightarrow> nat \<Rightarrow> int \<Rightarrow> int list \<Rightarrow> outcome option" where
  "rec_h f g 0 n xs = raise RecursionError"
| "rec_h f g (Suc d) n xs =
     (if n = 0 then f d xs
      else (case rec_h f g d (n - 1) xs of
              None \<Rightarrow> None
            | Some (Inl e) \<Rightarrow> Some (Inl e)
            | Some (Inr y) \<Rightarrow> g d ((n - 1) # y # xs)))"

definition rec :: "fn \<Rightarrow> fn \<Rightarrow> fn" where
  "rec f g d args =
     (case args of
        [] \<Rightarrow> enter d (\<lambda>d'. raise TypeError)
      | n # xs \<Rightarrow> rec_h f g d n xs)"

text \<open>
  \<open>def mu(p)\<close> returns \<open>m\<close> with
  \<^verbatim>\<open>
  def m(*xs):
      n = 0
      while True:
          if p(n, *xs) == 0:
              return n
          n += 1
  \<close>
  \<open>mu_loop p d xs n\<close> is the loop entered with the counter at \<open>n\<close>, in the frame of \<open>m\<close>,
  where \<open>d\<close> more frames fit. The loop takes no frame of its own and has no bound.
\<close>

partial_function (option) mu_loop :: "fn \<Rightarrow> nat \<Rightarrow> int list \<Rightarrow> int \<Rightarrow> outcome option" where
  "mu_loop p d xs n =
     Option.bind (p d (n # xs))
       (\<lambda>r. case r of
               Inl e \<Rightarrow> Some (Inl e)
             | Inr v \<Rightarrow> if v = 0 then Some (Inr n) else mu_loop p d xs (n + 1))"

declare mu_loop.simps [code]

definition mu :: "fn \<Rightarrow> fn" where
  "mu p d xs = enter d (\<lambda>d'. mu_loop p d' xs 0)"

section \<open>The standard library\<close>

definition const :: "int \<Rightarrow> fn" where
  "const k = (\<lambda>d xs. enter d (\<lambda>d'. ret k))"

definition mkproj :: "int \<Rightarrow> fn" where
  "mkproj i = (\<lambda>d xs. enter d (\<lambda>d'. proj d' (i # xs)))"

definition zero :: fn where
  "zero = const 0"

definition one :: fn where
  "one = const 1"

definition id_fn :: fn where
  "id_fn = lambda1 (\<lambda>d x. proj d [0, x])"

definition pred :: fn where
  "pred = rec zero (lambda2 (\<lambda>d n y. ret n))"

definition add_base :: fn where
  "add_base = id_fn"

definition add_step :: fn where
  "add_step = comp_fn incr [mkproj 1]"

definition add_raw :: fn where
  "add_raw = rec add_base add_step"

definition add :: fn where
  "add = lambda2 (\<lambda>d x y. add_raw d [y, x])"

definition mul_base :: fn where
  "mul_base = zero"

definition mul_step :: fn where
  "mul_step = comp_fn add [mkproj 1, mkproj 2]"

definition mul_raw :: fn where
  "mul_raw = rec mul_base mul_step"

definition mul :: fn where
  "mul = lambda2 (\<lambda>d x y. mul_raw d [y, x])"

definition exp_base :: fn where
  "exp_base = one"

definition exp_step :: fn where
  "exp_step = comp_fn mul [mkproj 1, mkproj 2]"

definition exp_raw :: fn where
  "exp_raw = rec exp_base exp_step"

definition exp :: fn where
  "exp = lambda2 (\<lambda>d x y. exp_raw d [y, x])"

definition sub_base :: fn where
  "sub_base = id_fn"

definition sub_step :: fn where
  "sub_step = comp_fn pred [mkproj 1]"

definition sub_raw :: fn where
  "sub_raw = rec sub_base sub_step"

definition sub :: fn where
  "sub = lambda2 (\<lambda>d x y. sub_raw d [y, x])"

definition is_zero :: fn where
  "is_zero = rec one (comp_fn zero [])"

definition sign :: fn where
  "sign = rec zero (comp_fn one [])"

definition leq :: fn where
  "leq = comp_fn is_zero [sub]"

definition eq :: fn where
  "eq = comp_fn mul [leq, comp_fn leq [mkproj 1, mkproj 0]]"

definition neq :: fn where
  "neq = comp_fn sign [comp_fn sub [one, comp_fn eq [mkproj 0, mkproj 1]]]"

definition max_fn :: fn where
  "max_fn = comp_fn add [comp_fn sub [mkproj 0, mkproj 1], mkproj 1]"

definition min_fn :: fn where
  "min_fn = comp_fn sub [comp_fn add [mkproj 0, mkproj 1], comp_fn max_fn [mkproj 0, mkproj 1]]"

text \<open>
  \<open>geq\<close> and \<open>lt\<close> build their composition on every call, inside their own frame.
\<close>

definition geq :: fn where
  "geq = lambda2 (\<lambda>d x y. comp_fn leq [mkproj 1, mkproj 0] d [x, y])"

definition lt :: fn where
  "lt = lambda2 (\<lambda>d x y. comp_fn sign [comp_fn sub [mkproj 1, mkproj 0]] d [x, y])"

section \<open>The frames a call needs\<close>

text \<open>
  \<open>needs f args c v\<close>: the call of \<open>f\<close> on \<open>args\<close> returns \<open>v\<close> wherever at least \<open>c\<close>
  more frames fit on the stack, and raises \<open>RecursionError\<close> wherever fewer fit.
\<close>

definition needs :: "fn \<Rightarrow> int list \<Rightarrow> nat \<Rightarrow> int \<Rightarrow> bool" where
  "needs f args c v = (\<forall>d. f d args = (if c \<le> d then ret v else raise RecursionError))"

text \<open>
  The frames that the library's calls need on natural numbers, read off the call tree:
  a composition \<open>comp(f, h1, ..., hk)\<close> needs a frame for itself, one more for the
  generator around the frames of the deepest \<open>h\<close>, and one around the frames of \<open>f\<close>;
  a recursion \<open>rec(f, g)\<close> on \<open>n\<close> needs a frame for each of its \<open>n + 1\<close> levels, the
  frames of \<open>f\<close> below the last one and the frames of \<open>g\<close> below each of the others.
\<close>

definition monus :: "int \<Rightarrow> int \<Rightarrow> int" where
  "monus x y = (if y \<le> x then x - y else 0)"

definition frames_pred :: "int \<Rightarrow> nat" where
  "frames_pred n = nat n + 2"

definition frames_is_zero :: "int \<Rightarrow> nat" where
  "frames_is_zero n = nat n + 2"

definition frames_add :: "int \<Rightarrow> nat" where
  "frames_add y = (if y = 0 then 4 else nat y + 5)"

definition frames_sub :: "int \<Rightarrow> int \<Rightarrow> nat" where
  "frames_sub x y = (if y = 0 then 4 else nat y + max 5 (nat x + 4))"

definition frames_mul :: "int \<Rightarrow> int \<Rightarrow> nat" where
  "frames_mul x y = (if y = 0 then 3 else nat y + 2 + frames_add x)"

definition frames_leq :: "int \<Rightarrow> int \<Rightarrow> nat" where
  "frames_leq x y = max (2 + frames_sub x y) (1 + frames_is_zero (monus x y))"

definition frames_eq :: "int \<Rightarrow> int \<Rightarrow> nat" where
  "frames_eq x y =
     max (2 + max (frames_leq x y) (1 + frames_leq y x))
         (1 + frames_mul (if x \<le> y then 1 else 0) (if y \<le> x then 1 else 0))"

definition frames_max :: "int \<Rightarrow> int \<Rightarrow> nat" where
  "frames_max x y = max (3 + frames_sub x y) (1 + frames_add y)"

definition frames_min :: "int \<Rightarrow> int \<Rightarrow> nat" where
  "frames_min x y =
     max (3 + max (frames_add y) (frames_max x y))
         (1 + frames_sub (x + y) (if x \<le> y then y else x))"

section \<open>Outcomes, frames and calls\<close>

lemma ret_inject: "ret a = ret b \<longleftrightarrow> a = b"
  by (simp add: ret_def)


lemma enter_0: "enter 0 body = raise RecursionError"
  by (simp add: enter_def)

lemma enter_Suc: "enter (Suc d) body = body d"
  by (simp add: enter_def)

lemma enter_ret: "enter d (\<lambda>d'. ret v) = (if 1 \<le> d then ret v else raise RecursionError)"
  by (cases d) (simp_all add: enter_def)

lemma call_ret1: "call f d [ret a] = f d [a]"
  by (simp add: call_def ret_def)

lemma call_ret2: "call f d [ret a, ret b] = f d [a, b]"
  by (simp add: call_def ret_def)

lemma call_raise1: "call f d [raise e] = raise e"
  by (simp add: call_def raise_def)

lemma call_raise_fst: "call f d [raise e, m] = raise e"
  by (simp add: call_def raise_def)

lemma call_raise_snd: "call f d [ret a, raise e] = raise e"
  by (simp add: call_def raise_def ret_def)

section \<open>Frames of the operators\<close>

text \<open>
  The frames of a composition, of a recursion and of a lambda, from the frames of their
  parts.
\<close>

lemma needsI: "(\<And>d. f d args = (if c \<le> d then ret v else raise RecursionError)) \<Longrightarrow> needs f args c v"
  by (simp add: needs_def)

lemma needsD: "needs f args c v \<Longrightarrow> f d args = (if c \<le> d then ret v else raise RecursionError)"
  by (simp add: needs_def)

lemma needs_cong: "needs f args c v \<Longrightarrow> c = c' \<Longrightarrow> v = v' \<Longrightarrow> needs f args c' v'"
  by simp

lemma needs_const: "needs (const k) xs 1 k"
  by (rule needsI) (simp add: const_def enter_ret)

lemma needs_incr: "needs incr [n] 1 (n + 1)"
  by (rule needsI) (simp add: incr_def lambda1_def enter_ret)

lemma proj_first: "proj d (0 # a # as) = (if 1 \<le> d then ret a else raise RecursionError)"
  by (simp add: proj_def enter_ret)

lemma proj_second: "proj d (1 # a # b # bs) = (if 1 \<le> d then ret b else raise RecursionError)"
  by (simp add: proj_def enter_ret)

lemma proj_third: "proj d (2 # a # b # c # cs) = (if 1 \<le> d then ret c else raise RecursionError)"
  by (simp add: proj_def enter_ret)

lemma needs_mkproj_0: "needs (mkproj 0) (a # as) 2 a"
proof (rule needsI)
  fix d show "mkproj 0 d (a # as) = (if 2 \<le> d then ret a else raise RecursionError)"
    by (cases d) (simp_all add: mkproj_def enter_0 enter_Suc proj_first)
qed

lemma needs_mkproj_1: "needs (mkproj 1) (a # b # bs) 2 b"
proof (rule needsI)
  fix d show "mkproj 1 d (a # b # bs) = (if 2 \<le> d then ret b else raise RecursionError)"
    by (cases d) (simp_all add: mkproj_def enter_0 enter_Suc proj_second)
qed

lemma needs_mkproj_2: "needs (mkproj 2) (a # b # c # cs) 2 c"
proof (rule needsI)
  fix d show "mkproj 2 d (a # b # c # cs) = (if 2 \<le> d then ret c else raise RecursionError)"
    by (cases d) (simp_all add: mkproj_def enter_0 enter_Suc proj_third)
qed

lemma needs_id_fn: "needs id_fn [x] 2 x"
proof (rule needsI)
  fix d show "id_fn d [x] = (if 2 \<le> d then ret x else raise RecursionError)"
    by (cases d) (simp_all add: id_fn_def lambda1_def enter_0 enter_Suc proj_first)
qed

lemma needs_lambda2:
  assumes "needs (\<lambda>d args. body d x y) [] c v"
  shows "needs (lambda2 body) [x, y] (Suc c) v"
proof (rule needsI)
  fix d show "lambda2 body d [x, y] = (if Suc c \<le> d then ret v else raise RecursionError)"
    using needsD [OF assms] by (cases d) (simp_all add: lambda2_def enter_0 enter_Suc)
qed

lemma needs_lambda1:
  assumes "needs (\<lambda>d args. body d x) [] c v"
  shows "needs (lambda1 body) [x] (Suc c) v"
proof (rule needsI)
  fix d show "lambda1 body d [x] = (if Suc c \<le> d then ret v else raise RecursionError)"
    using needsD [OF assms] by (cases d) (simp_all add: lambda1_def enter_0 enter_Suc)
qed

lemma needs_comp0:
  assumes "needs f [] cf v"
  shows "needs (comp_fn f []) args (max 2 (Suc cf)) v"
proof (rule needsI)
  fix d
  show "comp_fn f [] d args = (if max 2 (Suc cf) \<le> d then ret v else raise RecursionError)"
  proof (cases d)
    case 0
    then show ?thesis by (simp add: comp_fn_def enter_0)
  next
    case (Suc d1)
    then show ?thesis using needsD [OF assms, of d1]
      by (cases d1) (simp_all add: comp_fn_def enter_Suc)
  qed
qed

lemma needs_comp1:
  assumes "needs h args c a" and "needs f [a] cf v"
  shows "needs (comp_fn f [h]) args (max (c + 2) (Suc cf)) v"
proof (rule needsI)
  fix d
  show "comp_fn f [h] d args = (if max (c + 2) (Suc cf) \<le> d then ret v else raise RecursionError)"
  proof (cases d)
    case 0
    then show ?thesis by (simp add: comp_fn_def enter_0)
  next
    case (Suc d1)
    show ?thesis
    proof (cases d1)
      case 0
      with Suc show ?thesis by (simp add: comp_fn_def enter_Suc)
    next
      case (Suc d2)
      with \<open>d = Suc d1\<close> show ?thesis
        using needsD [OF assms(1), of d2] needsD [OF assms(2), of d1]
        by (simp add: comp_fn_def enter_Suc ret_def raise_def)
    qed
  qed
qed

lemma needs_comp2:
  assumes "needs h args c a" and "needs k args c' b" and "needs f [a, b] cf v"
  shows "needs (comp_fn f [h, k]) args (max (max c c' + 2) (Suc cf)) v"
proof (rule needsI)
  fix d
  show "comp_fn f [h, k] d args =
        (if max (max c c' + 2) (Suc cf) \<le> d then ret v else raise RecursionError)"
  proof (cases d)
    case 0
    then show ?thesis by (simp add: comp_fn_def enter_0)
  next
    case (Suc d1)
    show ?thesis
    proof (cases d1)
      case 0
      with Suc show ?thesis by (simp add: comp_fn_def enter_Suc)
    next
      case (Suc d2)
      with \<open>d = Suc d1\<close> show ?thesis
        using needsD [OF assms(1), of d2] needsD [OF assms(2), of d2] needsD [OF assms(3), of d1]
        by (simp add: comp_fn_def enter_Suc ret_def raise_def)
    qed
  qed
qed

lemma needs_rec_0:
  assumes "needs f xs cf v"
  shows "needs (rec f g) (0 # xs) (Suc cf) v"
proof (rule needsI)
  fix d show "rec f g d (0 # xs) = (if Suc cf \<le> d then ret v else raise RecursionError)"
    using needsD [OF assms] by (cases d) (simp_all add: rec_def)
qed

lemma needs_rec_step:
  assumes "0 \<le> n" and "needs (rec f g) (n # xs) c y" and "needs g (n # y # xs) cg v"
  shows "needs (rec f g) ((n + 1) # xs) (Suc (max c cg)) v"
proof (rule needsI)
  fix d
  show "rec f g d ((n + 1) # xs) = (if Suc (max c cg) \<le> d then ret v else raise RecursionError)"
  proof (cases d)
    case 0
    then show ?thesis by (simp add: rec_def)
  next
    case (Suc d1)
    then show ?thesis
      using assms(1) needsD [OF assms(2), of d1] needsD [OF assms(3), of d1]
      by (simp add: rec_def ret_def raise_def)
  qed
qed

section \<open>Frames and results of the library on natural numbers\<close>

text \<open>
  Each recursion is followed by induction on the number it recurses on: the frames and
  the result of one level from those of the level below.
\<close>

lemma needs_pred:
  assumes "0 \<le> n"
  shows "needs pred [n] (frames_pred n) (if n = 0 then 0 else n - 1)"
  using assms
proof (induction n rule: int_ge_induct)
  case base
  have "needs (rec zero (lambda2 (\<lambda>d n y. ret n))) [0] (Suc 1) 0"
    unfolding zero_def by (intro needs_rec_0 needs_const)
  then show ?case by (simp add: pred_def frames_pred_def numeral_2_eq_2)
next
  case (step i)
  let ?y = "if i = 0 then 0 else i - 1"
  have "needs (lambda2 (\<lambda>d n y. ret n)) [i, ?y] (Suc 0) i"
    by (rule needs_lambda2) (simp add: needs_def)
  with step have "needs pred [i + 1] (Suc (max (frames_pred i) (Suc 0))) i"
    unfolding pred_def by (intro needs_rec_step)
  then show ?case using step.hyps
    by (simp add: frames_pred_def nat_add_distrib)
qed

lemma needs_is_zero:
  assumes "0 \<le> n"
  shows "needs is_zero [n] (frames_is_zero n) (if n = 0 then 1 else 0)"
  using assms
proof (induction n rule: int_ge_induct)
  case base
  have "needs (rec one (comp_fn zero [])) [0] (Suc 1) 1"
    unfolding one_def by (intro needs_rec_0 needs_const)
  then show ?case by (simp add: is_zero_def frames_is_zero_def numeral_2_eq_2)
next
  case (step i)
  have "needs (comp_fn zero []) [i, if i = 0 then 1 else 0] (max 2 (Suc 1)) 0"
    unfolding zero_def by (intro needs_comp0 needs_const)
  with step have "needs is_zero [i + 1] (Suc (max (frames_is_zero i) (max 2 (Suc 1)))) 0"
    unfolding is_zero_def by (intro needs_rec_step)
  then show ?case using step.hyps
    by (simp add: frames_is_zero_def nat_add_distrib)
qed

lemma needs_sign:
  assumes "0 \<le> n"
  shows "needs sign [n] (frames_is_zero n) (if n = 0 then 0 else 1)"
  using assms
proof (induction n rule: int_ge_induct)
  case base
  have "needs (rec zero (comp_fn one [])) [0] (Suc 1) 0"
    unfolding zero_def by (intro needs_rec_0 needs_const)
  then show ?case by (simp add: sign_def frames_is_zero_def numeral_2_eq_2)
next
  case (step i)
  have "needs (comp_fn one []) [i, if i = 0 then 0 else 1] (max 2 (Suc 1)) 1"
    unfolding one_def by (intro needs_comp0 needs_const)
  with step have "needs sign [i + 1] (Suc (max (frames_is_zero i) (max 2 (Suc 1)))) 1"
    unfolding sign_def by (intro needs_rec_step)
  then show ?case using step.hyps
    by (simp add: frames_is_zero_def nat_add_distrib)
qed

lemma needs_add_step: "needs add_step [n, y, x] 4 (y + 1)"
proof -
  have "needs (comp_fn incr [mkproj 1]) [n, y, x] (max (2 + 2) (Suc 1)) (y + 1)"
    by (rule needs_comp1 [OF needs_mkproj_1 needs_incr])
  then show ?thesis by (simp add: add_step_def)
qed

lemma needs_add_raw:
  assumes "0 \<le> n"
  shows "needs add_raw [n, x] (if n = 0 then 3 else nat n + 4) (x + n)"
  using assms
proof (induction n rule: int_ge_induct)
  case base
  have "needs (rec add_base add_step) [0, x] (Suc 2) x"
    unfolding add_base_def by (intro needs_rec_0 needs_id_fn)
  then show ?case by (simp add: add_raw_def numeral_3_eq_3)
next
  case (step i)
  from step.IH needs_add_step [of i "x + i" x]
  have "needs add_raw [i + 1, x] (Suc (max (if i = 0 then 3 else nat i + 4) 4)) (x + i + 1)"
    unfolding add_raw_def using step.hyps by (intro needs_rec_step)
  then show ?case
    by (rule needs_cong) (use step.hyps in \<open>auto simp add: nat_add_distrib\<close>)
qed

lemma needs_add: "0 \<le> y \<Longrightarrow> needs add [x, y] (frames_add y) (x + y)"
proof -
  assume y: "0 \<le> y"
  have "needs (\<lambda>d args. add_raw d [y, x]) [] (if y = 0 then 3 else nat y + 4) (x + y)"
    using needs_add_raw [OF y, of x] by (simp add: needs_def)
  then have "needs add [x, y] (Suc (if y = 0 then 3 else nat y + 4)) (x + y)"
    unfolding add_def by (rule needs_lambda2)
  then show ?thesis by (rule needs_cong) (auto simp add: frames_add_def)
qed

lemma needs_sub_step:
  assumes "0 \<le> y"
  shows "needs sub_step [n, y, x] (max 4 (nat y + 3)) (if y = 0 then 0 else y - 1)"
proof -
  have "needs (comp_fn pred [mkproj 1]) [n, y, x] (max (2 + 2) (Suc (frames_pred y)))
          (if y = 0 then 0 else y - 1)"
    by (rule needs_comp1 [OF needs_mkproj_1 needs_pred [OF assms]])
  then show ?thesis
    unfolding sub_step_def by (rule needs_cong) (simp_all add: frames_pred_def)
qed

lemma needs_sub_raw:
  assumes "0 \<le> n" and "0 \<le> x"
  shows "needs sub_raw [n, x] (if n = 0 then 3 else nat n + max 4 (nat x + 3)) (monus x n)"
  using assms(1)
proof (induction n rule: int_ge_induct)
  case base
  have "needs (rec sub_base sub_step) [0, x] (Suc 2) x"
    unfolding sub_base_def by (intro needs_rec_0 needs_id_fn)
  then have "needs sub_raw [0, x] (Suc 2) x"
    by (simp add: sub_raw_def)
  then show ?case
    by (rule needs_cong) (use assms(2) in \<open>simp_all add: monus_def\<close>)
next
  case (step i)
  have "0 \<le> monus x i" by (simp add: monus_def)
  from needs_sub_step [OF this, of i x]
  have "needs sub_raw [i + 1, x]
          (Suc (max (if i = 0 then 3 else nat i + max 4 (nat x + 3)) (max 4 (nat (monus x i) + 3))))
          (if monus x i = 0 then 0 else monus x i - 1)"
    unfolding sub_raw_def using step.hyps step.IH [unfolded sub_raw_def]
    by (intro needs_rec_step)
  then show ?case
    by (rule needs_cong)
      (use step.hyps assms(2) in \<open>auto simp add: monus_def nat_add_distrib max_def\<close>)
qed

lemma needs_sub:
  assumes "0 \<le> x" and "0 \<le> y"
  shows "needs sub [x, y] (frames_sub x y) (monus x y)"
proof -
  have "needs (\<lambda>d args. sub_raw d [y, x]) [] (if y = 0 then 3 else nat y + max 4 (nat x + 3))
          (monus x y)"
    using needs_sub_raw [OF assms(2,1)] by (simp add: needs_def)
  then have "needs sub [x, y] (Suc (if y = 0 then 3 else nat y + max 4 (nat x + 3))) (monus x y)"
    unfolding sub_def by (rule needs_lambda2)
  then show ?thesis by (rule needs_cong) (auto simp add: frames_sub_def max_def)
qed

lemma needs_mul_step:
  assumes "0 \<le> x"
  shows "needs mul_step [n, y, x] (Suc (frames_add x)) (y + x)"
proof -
  have "needs (comp_fn add [mkproj 1, mkproj 2]) [n, y, x] (max (max 2 2 + 2) (Suc (frames_add x)))
          (y + x)"
    by (rule needs_comp2 [OF needs_mkproj_1 needs_mkproj_2 needs_add [OF assms]])
  then show ?thesis
    unfolding mul_step_def by (rule needs_cong) (simp_all add: frames_add_def)
qed

lemma needs_mul_raw:
  assumes "0 \<le> n" and "0 \<le> x"
  shows "needs mul_raw [n, x] (if n = 0 then 2 else nat n + 1 + frames_add x) (n * x)"
  using assms(1)
proof (induction n rule: int_ge_induct)
  case base
  have "needs (rec mul_base mul_step) [0, x] (Suc 1) 0"
    unfolding mul_base_def zero_def by (intro needs_rec_0 needs_const)
  then have "needs mul_raw [0, x] (Suc 1) 0"
    by (simp add: mul_raw_def)
  then show ?case
    by (rule needs_cong) simp_all
next
  case (step i)
  from needs_mul_step [OF assms(2), of i "i * x"]
  have "needs mul_raw [i + 1, x]
          (Suc (max (if i = 0 then 2 else nat i + 1 + frames_add x) (Suc (frames_add x))))
          (i * x + x)"
    unfolding mul_raw_def using step.hyps step.IH [unfolded mul_raw_def]
    by (intro needs_rec_step)
  then show ?case
    by (rule needs_cong)
      (use step.hyps in \<open>auto simp add: nat_add_distrib max_def frames_add_def distrib_right\<close>)
qed

lemma needs_mul:
  assumes "0 \<le> x" and "0 \<le> y"
  shows "needs mul [x, y] (frames_mul x y) (x * y)"
proof -
  have "needs (\<lambda>d args. mul_raw d [y, x]) [] (if y = 0 then 2 else nat y + 1 + frames_add x)
          (y * x)"
    using needs_mul_raw [OF assms(2,1)] by (simp add: needs_def)
  then have "needs mul [x, y] (Suc (if y = 0 then 2 else nat y + 1 + frames_add x)) (y * x)"
    unfolding mul_def by (rule needs_lambda2)
  then show ?thesis by (rule needs_cong) (auto simp add: frames_mul_def mult.commute)
qed

lemma needs_leq:
  assumes "0 \<le> x" and "0 \<le> y"
  shows "needs leq [x, y] (frames_leq x y) (if x \<le> y then 1 else 0)"
proof -
  have "0 \<le> monus x y" by (simp add: monus_def)
  from needs_comp1 [OF needs_sub [OF assms] needs_is_zero [OF this]]
  show ?thesis
    unfolding leq_def
    by (rule needs_cong) (auto simp add: frames_leq_def monus_def)
qed

lemma needs_leq_swapped:
  assumes "0 \<le> x" and "0 \<le> y"
  shows "needs (comp_fn leq [mkproj 1, mkproj 0]) [x, y] (Suc (frames_leq y x))
           (if y \<le> x then 1 else 0)"
proof -
  from needs_comp2 [OF needs_mkproj_1 needs_mkproj_0 needs_leq [OF assms(2,1)]]
  show ?thesis
    by (rule needs_cong)
      (auto simp add: frames_leq_def frames_sub_def max_def)
qed

lemma needs_eq:
  assumes "0 \<le> x" and "0 \<le> y"
  shows "needs eq [x, y] (frames_eq x y) (if x = y then 1 else 0)"
proof -
  let ?a = "if x \<le> y then 1 else 0 :: int" and ?b = "if y \<le> x then 1 else 0 :: int"
  have "needs mul [?a, ?b] (frames_mul ?a ?b) (?a * ?b)"
    by (rule needs_mul) simp_all
  from needs_comp2 [OF needs_leq [OF assms] needs_leq_swapped [OF assms] this]
  show ?thesis
    unfolding eq_def
    by (rule needs_cong) (auto simp add: frames_eq_def)
qed

lemma needs_max_fn:
  assumes "0 \<le> x" and "0 \<le> y"
  shows "needs max_fn [x, y] (frames_max x y) (if x \<le> y then y else x)"
proof -
  have inner: "needs (comp_fn sub [mkproj 0, mkproj 1]) [x, y]
          (max (max 2 2 + 2) (Suc (frames_sub x y))) (monus x y)"
    by (rule needs_comp2 [OF needs_mkproj_0 needs_mkproj_1 needs_sub [OF assms]])
  from needs_comp2 [OF inner needs_mkproj_1 needs_add [OF assms(2)]]
  show ?thesis
    unfolding max_fn_def
    by (rule needs_cong) (auto simp add: frames_max_def frames_sub_def monus_def max_def)
qed

lemma needs_min_fn:
  assumes "0 \<le> x" and "0 \<le> y"
  shows "needs min_fn [x, y] (frames_min x y) (if x \<le> y then x else y)"
proof -
  let ?m = "if x \<le> y then y else x"
  have sum: "needs (comp_fn add [mkproj 0, mkproj 1]) [x, y]
          (max (max 2 2 + 2) (Suc (frames_add y))) (x + y)"
    by (rule needs_comp2 [OF needs_mkproj_0 needs_mkproj_1 needs_add [OF assms(2)]])
  have larger: "needs (comp_fn max_fn [mkproj 0, mkproj 1]) [x, y]
          (max (max 2 2 + 2) (Suc (frames_max x y))) ?m"
    by (rule needs_comp2 [OF needs_mkproj_0 needs_mkproj_1 needs_max_fn [OF assms]])
  have "needs sub [x + y, ?m] (frames_sub (x + y) ?m) (monus (x + y) ?m)"
    by (rule needs_sub) (use assms in simp_all)
  from needs_comp2 [OF sum larger this]
  show ?thesis
    unfolding min_fn_def
    by (rule needs_cong)
      (use assms in \<open>auto simp add: frames_min_def frames_max_def frames_add_def monus_def max_def\<close>)
qed

section \<open>Bounds on the frames\<close>

lemma frames_eq_le: "0 \<le> x \<Longrightarrow> 0 \<le> y \<Longrightarrow> frames_eq x y \<le> nat x + nat y + 10"
  by (auto simp add: frames_eq_def frames_leq_def frames_sub_def frames_is_zero_def frames_mul_def
      frames_add_def monus_def max_def)

lemma frames_max_le: "0 \<le> x \<Longrightarrow> 0 \<le> y \<Longrightarrow> frames_max x y \<le> nat x + nat y + 8"
  by (auto simp add: frames_max_def frames_sub_def frames_add_def max_def)

lemma frames_min_le: "0 \<le> x \<Longrightarrow> 0 \<le> y \<Longrightarrow> frames_min x y \<le> 2 * (nat x + nat y) + 11"
  by (auto simp add: frames_min_def frames_max_def frames_sub_def frames_add_def max_def
      nat_add_distrib)

section \<open>Calls with evaluated and unevaluated arguments\<close>

lemma collect_map_ret: "collect (map ret xs) = Some (Inr xs)"
  by (induction xs) (simp_all add: ret_def)

lemma collect_ret_Cons: "collect ms = Some (Inr vs) \<Longrightarrow> collect (ret v # ms) = Some (Inr (v # vs))"
  by (simp add: ret_def)

lemma call_rec_step:
  "call g d (ret n # m # map ret xs) =
   (case m of None \<Rightarrow> None | Some (Inl e) \<Rightarrow> Some (Inl e) | Some (Inr y) \<Rightarrow> g d (n # y # xs))"
proof (cases m)
  case None
  then show ?thesis by (simp add: call_def ret_def)
next
  case (Some r)
  show ?thesis
  proof (cases r)
    case (Inl e)
    with Some show ?thesis by (simp add: call_def ret_def)
  next
    case (Inr y)
    have "collect (ret n # ret y # map ret xs) = Some (Inr (n # y # xs))"
      by (intro collect_ret_Cons collect_map_ret)
    with Some Inr show ?thesis by (simp add: call_def ret_def)
  qed
qed

section \<open>The search loop\<close>

text \<open>
  One round of the loop: it stops at a zero, goes on after a non-zero result, and passes
  on an error or a call of the predicate that never returns.
\<close>

lemma mu_0: "mu p 0 xs = raise RecursionError"
  by (simp add: mu_def enter_0)

lemma mu_Suc: "mu p (Suc d) xs = mu_loop p d xs 0"
  by (simp add: mu_def enter_Suc)

lemma mu_loop_stop: "p d (n # xs) = ret 0 \<Longrightarrow> mu_loop p d xs n = ret n"
  by (subst mu_loop.simps) (simp add: ret_def)

lemma mu_loop_next:
  "p d (n # xs) = ret v \<Longrightarrow> v \<noteq> 0 \<Longrightarrow> mu_loop p d xs n = mu_loop p d xs (n + 1)"
  by (subst mu_loop.simps) (simp add: ret_def)

lemma mu_loop_raise: "p d (n # xs) = raise e \<Longrightarrow> mu_loop p d xs n = raise e"
  by (subst mu_loop.simps) (simp add: raise_def)


lemma mu_loop_found:
  assumes "n \<le> m" and "p d (m # xs) = ret 0"
    and "\<forall>k. n \<le> k \<and> k < m \<longrightarrow> (\<exists>v. v \<noteq> 0 \<and> p d (k # xs) = ret v)"
  shows "mu_loop p d xs n = ret m"
  using assms
proof (induction "nat (m - n)" arbitrary: n)
  case 0
  then have "n = m" by simp
  with "0.prems"(2) show ?case by (simp add: mu_loop_stop)
next
  case (Suc j)
  then have lt: "n < m" by linarith
  with Suc.prems(3) obtain v where v: "v \<noteq> 0" "p d (n # xs) = ret v" by blast
  have "mu_loop p d xs (n + 1) = ret m"
  proof (rule Suc.hyps(1))
    show "j = nat (m - (n + 1))" using Suc.hyps(2) by linarith
    show "n + 1 \<le> m" using lt by simp
    show "p d (m # xs) = ret 0" by (rule Suc.prems(2))
    show "\<forall>k. n + 1 \<le> k \<and> k < m \<longrightarrow> (\<exists>v. v \<noteq> 0 \<and> p d (k # xs) = ret v)"
      using Suc.prems(3) by simp
  qed
  with v show ?case by (simp add: mu_loop_next)
qed

lemma mu_loop_fails:
  assumes "n \<le> m" and "p d (m # xs) = raise e"
    and "\<forall>k. n \<le> k \<and> k < m \<longrightarrow> (\<exists>v. v \<noteq> 0 \<and> p d (k # xs) = ret v)"
  shows "mu_loop p d xs n = raise e"
  using assms
proof (induction "nat (m - n)" arbitrary: n)
  case 0
  then have "n = m" by simp
  with "0.prems"(2) show ?case by (simp add: mu_loop_raise)
next
  case (Suc j)
  then have lt: "n < m" by linarith
  with Suc.prems(3) obtain v where v: "v \<noteq> 0" "p d (n # xs) = ret v" by blast
  have "mu_loop p d xs (n + 1) = raise e"
  proof (rule Suc.hyps(1))
    show "j = nat (m - (n + 1))" using Suc.hyps(2) by linarith
    show "n + 1 \<le> m" using lt by simp
    show "p d (m # xs) = raise e" by (rule Suc.prems(2))
    show "\<forall>k. n + 1 \<le> k \<and> k < m \<longrightarrow> (\<exists>v. v \<noteq> 0 \<and> p d (k # xs) = ret v)"
      using Suc.prems(3) by simp
  qed
  with v show ?case by (simp add: mu_loop_next)
qed



section \<open>Predicates for the search\<close>


lemma needs_sub_three:
  assumes "0 \<le> k"
  shows "needs (lambda1 (\<lambda>d n. sub d [n, 3])) [k] (Suc (frames_sub k 3)) (monus k 3)"
proof (rule needs_lambda1)
  show "needs (\<lambda>d args. sub d [k, 3]) [] (frames_sub k 3) (monus k 3)"
    using needs_sub [OF assms, of 3] by (simp add: needs_def)
qed

lemma needs_sub_three_comp:
  assumes "0 \<le> k"
  shows "needs (comp_fn sub [mkproj 0, const 3]) [k] (Suc (frames_sub k 3)) (monus k 3)"
proof -
  from needs_comp2 [OF needs_mkproj_0 needs_const needs_sub [OF assms, of 3]]
  show ?thesis by (rule needs_cong) (simp_all add: frames_sub_def)
qed

lemma needs_three_sub:
  assumes "0 \<le> k"
  shows "needs (lambda1 (\<lambda>d n. sub d [3, n])) [k] (Suc (frames_sub 3 k)) (monus 3 k)"
proof (rule needs_lambda1)
  show "needs (\<lambda>d args. sub d [3, k]) [] (frames_sub 3 k) (monus 3 k)"
    using needs_sub [OF _ assms, of 3] by (simp add: needs_def)
qed

lemma raise_not_ret: "raise e \<noteq> ret a"
  by (simp add: ret_def raise_def)

lemma mu_first_probe:
  assumes "needs p (0 # xs) c 0"
  shows "mu p d xs = (if Suc c \<le> d then ret 0 else raise RecursionError)"
proof (cases d)
  case 0
  then show ?thesis by (simp add: mu_0)
next
  case (Suc d')
  show ?thesis
  proof (cases "c \<le> d'")
    case True
    with needsD [OF assms, of d'] have "mu_loop p d' xs 0 = ret 0"
      by (intro mu_loop_stop) simp
    with Suc True show ?thesis by (simp add: mu_Suc)
  next
    case False
    with needsD [OF assms, of d'] have "mu_loop p d' xs 0 = raise RecursionError"
      by (intro mu_loop_raise) simp
    with Suc False show ?thesis by (simp add: mu_Suc)
  qed
qed

lemma three_sub_probe:
  assumes "0 \<le> k" and "k \<le> 3"
  shows "lambda1 (\<lambda>d n. sub d [3, n]) d [k] =
         (if (if k = 0 then 5 else nat k + 8) \<le> d then ret (3 - k) else raise RecursionError)"
  using needsD [OF needs_three_sub [OF assms(1)], of d] assms
  by (auto simp add: frames_sub_def monus_def)

lemma mu_three_sub:
  "mu (lambda1 (\<lambda>d n. sub d [3, n])) d [] = (if 12 \<le> d then ret 3 else raise RecursionError)"
proof (cases d)
  case 0
  then show ?thesis by (simp add: mu_0)
next
  case (Suc d')
  let ?p = "lambda1 (\<lambda>d n. sub d [3, n])"
  have passed: "\<forall>k. 0 \<le> k \<and> k < m \<longrightarrow> (\<exists>v. v \<noteq> 0 \<and> ?p d' (k # []) = ret v)"
    if "m \<le> 3" and "(if m \<le> 1 then 5 else nat m + 7) \<le> d'" for m
  proof (intro allI impI)
    fix k
    assume k: "0 \<le> k \<and> k < m"
    with that have "?p d' [k] = ret (3 - k)" and "3 - k \<noteq> 0"
      by (auto simp add: three_sub_probe split: if_splits)
    then show "\<exists>v. v \<noteq> 0 \<and> ?p d' [k] = ret v" by blast
  qed
  consider "d' < 5" | "5 \<le> d'" "d' < 9" | "d' = 9" | "d' = 10" | "11 \<le> d'"
    by linarith
  then have "mu_loop ?p d' [] 0 = (if 11 \<le> d' then ret 3 else raise RecursionError)"
  proof cases
    case 1
    then have "mu_loop ?p d' [] 0 = raise RecursionError"
      by (intro mu_loop_raise) (simp add: three_sub_probe)
    with 1 show ?thesis by simp
  next
    case 2
    then have "mu_loop ?p d' [] 0 = raise RecursionError"
      by (intro mu_loop_fails [where m = 1] passed) (simp_all add: three_sub_probe)
    with 2 show ?thesis by simp
  next
    case 3
    then have "mu_loop ?p d' [] 0 = raise RecursionError"
      by (intro mu_loop_fails [where m = 2] passed) (simp_all add: three_sub_probe)
    with 3 show ?thesis by simp
  next
    case 4
    then have "mu_loop ?p d' [] 0 = raise RecursionError"
      by (intro mu_loop_fails [where m = 3] passed) (simp_all add: three_sub_probe)
    with 4 show ?thesis by simp
  next
    case 5
    then have "mu_loop ?p d' [] 0 = ret 3"
      by (intro mu_loop_found [where m = 3] passed) (simp_all add: three_sub_probe)
    with 5 show ?thesis by simp
  qed
  with Suc show ?thesis by (simp add: mu_Suc)
qed

section \<open>Properties of the library\<close>

text \<open>
  C8, amended: for every natural number \<open>n\<close>, the call \<open>pred(incr(n))\<close> returns \<open>n\<close> where
  at least \<open>n + 3\<close> more frames fit on the interpreter's stack, and raises
  \<open>RecursionError\<close> where fewer fit.
\<close>

theorem pred_incr:
  "0 \<le> n \<Longrightarrow>
   call pred d [incr d [n]] = (if nat n + 3 \<le> d then ret n else raise RecursionError)"
proof -
  assume n: "0 \<le> n"
  then have "0 \<le> n + 1" by simp
  from needsD [OF needs_pred [OF this], of d] needsD [OF needs_incr, of d n] n
  show ?thesis
    by (auto simp add: call_ret1 call_raise1 frames_pred_def nat_add_distrib)
qed

theorem pred_incr_witness:
  "call pred 7 [incr 7 [4]] = ret 4 \<and> call pred 6 [incr 6 [4]] = raise RecursionError"
  using pred_incr [of 4 7] pred_incr [of 4 6] by simp

text \<open>
  C8 as stated fails on large numbers: with the whole stack of the default limit
  available, \<open>pred(incr(2000))\<close> raises \<open>RecursionError\<close>.
\<close>

theorem pred_incr_counterexample:
  "call pred recursion_limit [incr recursion_limit [2000]] = raise RecursionError"
proof -
  have "0 \<le> (2001::int)" by simp
  from needsD [OF needs_pred [OF this], of recursion_limit] needsD [OF needs_incr, of recursion_limit 2000]
  show ?thesis
    by (simp add: call_ret1 frames_pred_def recursion_limit_def)
qed

text \<open>
  C3, amended: \<open>sub\<close> is truncated subtraction wherever its recursion fits on the stack.
  For every natural \<open>x\<close>, \<open>sub(x, 0)\<close> returns \<open>x\<close> where 4 frames fit; for all naturals
  \<open>x < y\<close>, \<open>sub(x, y)\<close> returns \<open>0\<close> where \<open>y + max(5, x + 4)\<close> frames fit; \<open>sub(7, 10)\<close>
  returns \<open>0\<close> and \<open>sub(10, 7)\<close> returns \<open>3\<close> where 21 frames fit. Where fewer frames
  fit, the call raises \<open>RecursionError\<close>.
\<close>

theorem sub_monus:
  "(0 \<le> x \<longrightarrow> sub d [x, 0] = (if 4 \<le> d then ret x else raise RecursionError)) \<and>
   (0 \<le> x \<and> x < y \<longrightarrow>
      sub d [x, y] = (if nat y + max 5 (nat x + 4) \<le> d then ret 0 else raise RecursionError)) \<and>
   sub d [7, 10] = (if 21 \<le> d then ret 0 else raise RecursionError) \<and>
   sub d [10, 7] = (if 21 \<le> d then ret 3 else raise RecursionError)"
proof (intro conjI impI)
  assume "0 \<le> x"
  from needsD [OF needs_sub [OF this, of 0], of d]
  show "sub d [x, 0] = (if 4 \<le> d then ret x else raise RecursionError)"
    by (simp add: frames_sub_def monus_def \<open>0 \<le> x\<close>)
next
  assume xy: "0 \<le> x \<and> x < y"
  then have "0 \<le> x" and "0 \<le> y" by simp_all
  from needsD [OF needs_sub [OF this], of d] xy
  show "sub d [x, y] = (if nat y + max 5 (nat x + 4) \<le> d then ret 0 else raise RecursionError)"
    by (simp add: frames_sub_def monus_def)
next
  from needsD [OF needs_sub [of 7 10], of d]
  show "sub d [7, 10] = (if 21 \<le> d then ret 0 else raise RecursionError)"
    by (simp add: frames_sub_def monus_def)
next
  from needsD [OF needs_sub [of 10 7], of d]
  show "sub d [10, 7] = (if 21 \<le> d then ret 3 else raise RecursionError)"
    by (simp add: frames_sub_def monus_def)
qed

theorem sub_monus_witness:
  "sub 4 [5, 0] = ret 5 \<and> sub 18 [5, 9] = ret 0 \<and> sub 17 [5, 9] = raise RecursionError"
  using sub_monus [of 5 4 9] sub_monus [of 5 18 9] sub_monus [of 5 17 9] by simp

text \<open>
  C3 as stated fails on large numbers: \<open>5 < 2000\<close>, but with the whole stack of the
  default limit available \<open>sub(5, 2000)\<close> raises \<open>RecursionError\<close> instead of returning
  \<open>0\<close>.
\<close>

theorem sub_monus_counterexample: "sub recursion_limit [5, 2000] = raise RecursionError"
  using needsD [OF needs_sub [of 5 2000], of recursion_limit]
  by (simp add: frames_sub_def recursion_limit_def)

text \<open>
  C6, amended: for all naturals \<open>x\<close> and \<open>y\<close>, \<open>eq(x, y)\<close> returns \<open>1\<close> if \<open>x = y\<close> and \<open>0\<close>
  otherwise where the frames of the call fit on the stack (\<open>frames_eq x y\<close> of them, at
  most \<open>x + y + 10\<close>), and raises \<open>RecursionError\<close> where they do not; \<open>eq(9, 9)\<close> returns
  \<open>1\<close> where 27 frames fit and \<open>eq(9, 8)\<close> returns \<open>0\<close> where 26 fit.
\<close>

theorem eq_decides_equality:
  "(0 \<le> x \<and> 0 \<le> y \<longrightarrow>
      eq d [x, y] =
        (if frames_eq x y \<le> d then ret (if x = y then 1 else 0) else raise RecursionError) \<and>
      frames_eq x y \<le> nat x + nat y + 10) \<and>
   eq d [9, 9] = (if 27 \<le> d then ret 1 else raise RecursionError) \<and>
   eq d [9, 8] = (if 26 \<le> d then ret 0 else raise RecursionError)"
proof (intro conjI impI)
  assume "0 \<le> x \<and> 0 \<le> y"
  then have xy: "0 \<le> x" "0 \<le> y" by simp_all
  from needsD [OF needs_eq [OF xy], of d]
  show "eq d [x, y] =
        (if frames_eq x y \<le> d then ret (if x = y then 1 else 0) else raise RecursionError)" .
  from xy show "frames_eq x y \<le> nat x + nat y + 10" by (rule frames_eq_le)
next
  have "frames_eq 9 9 = 27"
    by (simp add: frames_eq_def frames_leq_def frames_sub_def frames_is_zero_def frames_mul_def
        frames_add_def monus_def)
  with needsD [OF needs_eq [of 9 9], of d]
  show "eq d [9, 9] = (if 27 \<le> d then ret 1 else raise RecursionError)" by simp
next
  have "frames_eq 9 8 = 26"
    by (simp add: frames_eq_def frames_leq_def frames_sub_def frames_is_zero_def frames_mul_def
        frames_add_def monus_def)
  with needsD [OF needs_eq [of 9 8], of d]
  show "eq d [9, 8] = (if 26 \<le> d then ret 0 else raise RecursionError)" by simp
qed

theorem eq_decides_equality_witness:
  "eq 20 [4, 6] = ret 0 \<and> eq 18 [4, 4] = ret 1"
  using eq_decides_equality [of 4 6 20] eq_decides_equality [of 4 4 18] by simp

text \<open>
  C6 as stated fails on large numbers: with the whole stack of the default limit
  available, \<open>eq(2000, 2000)\<close> raises \<open>RecursionError\<close> instead of returning \<open>1\<close>.
\<close>

theorem eq_decides_equality_counterexample:
  "eq recursion_limit [2000, 2000] = raise RecursionError"
proof -
  have "recursion_limit < frames_eq 2000 2000"
    by (simp add: frames_eq_def frames_leq_def frames_sub_def recursion_limit_def)
  with needsD [OF needs_eq [of 2000 2000], of recursion_limit] show ?thesis by simp
qed

text \<open>
  C7, amended: for all naturals \<open>x\<close>, \<open>y\<close>, \<open>z\<close>, each of the calls \<open>add(x, y)\<close>,
  \<open>add(y, x)\<close>, \<open>mul(x, y)\<close>, \<open>mul(y, x)\<close>, \<open>add(add(x, y), z)\<close> and \<open>add(x, add(y, z))\<close>
  returns the sum or product where its recursion fits on the stack and raises
  \<open>RecursionError\<close> where it does not. \<open>add\<close> recurses on its second argument (\<open>y + 5\<close>
  frames, 4 for \<open>y = 0\<close>) and \<open>mul\<close> on its second argument with an \<open>add\<close> on the first
  at each level. So the two sides of each law return the same number where both fit.
\<close>

theorem add_mul_laws:
  assumes "0 \<le> x" and "0 \<le> y" and "0 \<le> z"
  shows "add d [x, y] = (if frames_add y \<le> d then ret (x + y) else raise RecursionError) \<and>
         add d [y, x] = (if frames_add x \<le> d then ret (x + y) else raise RecursionError) \<and>
         mul d [x, y] = (if frames_mul x y \<le> d then ret (x * y) else raise RecursionError) \<and>
         mul d [y, x] = (if frames_mul y x \<le> d then ret (x * y) else raise RecursionError) \<and>
         call add d [add d [x, y], ret z] =
           (if max (frames_add y) (frames_add z) \<le> d then ret (x + y + z)
            else raise RecursionError) \<and>
         call add d [ret x, add d [y, z]] =
           (if max (frames_add z) (frames_add (y + z)) \<le> d then ret (x + y + z)
            else raise RecursionError) \<and>
         (max (frames_add x) (frames_add y) \<le> d \<longrightarrow> add d [x, y] = add d [y, x]) \<and>
         (max (frames_mul x y) (frames_mul y x) \<le> d \<longrightarrow> mul d [x, y] = mul d [y, x]) \<and>
         (frames_add (y + z) \<le> d \<longrightarrow>
            call add d [add d [x, y], ret z] = call add d [ret x, add d [y, z]])"
proof -
  have yz: "0 \<le> y + z" using assms by simp
  have axy: "add d [x, y] = (if frames_add y \<le> d then ret (x + y) else raise RecursionError)"
    by (rule needsD [OF needs_add [OF assms(2)]])
  have ayx: "add d [y, x] = (if frames_add x \<le> d then ret (x + y) else raise RecursionError)"
    using needsD [OF needs_add [OF assms(1), of y], of d] by (simp add: add.commute)
  have mxy: "mul d [x, y] = (if frames_mul x y \<le> d then ret (x * y) else raise RecursionError)"
    by (rule needsD [OF needs_mul [OF assms(1,2)]])
  have myx: "mul d [y, x] = (if frames_mul y x \<le> d then ret (x * y) else raise RecursionError)"
    using needsD [OF needs_mul [OF assms(2,1)], of d] by (simp add: mult.commute)
  have left: "call add d [add d [x, y], ret z] =
           (if max (frames_add y) (frames_add z) \<le> d then ret (x + y + z)
            else raise RecursionError)"
    using needsD [OF needs_add [OF assms(3), of "x + y"], of d]
    by (simp add: axy call_ret2 call_raise_fst)
  have right: "call add d [ret x, add d [y, z]] =
           (if max (frames_add z) (frames_add (y + z)) \<le> d then ret (x + y + z)
            else raise RecursionError)"
    using needsD [OF needs_add [OF assms(3), of y], of d] needsD [OF needs_add [OF yz, of x], of d]
    by (simp add: call_ret2 call_raise_snd add.assoc)
  have mono: "frames_add y \<le> frames_add (y + z)" "frames_add z \<le> frames_add (y + z)"
    using assms by (auto simp add: frames_add_def)
  have comm_add: "max (frames_add x) (frames_add y) \<le> d \<longrightarrow> add d [x, y] = add d [y, x]"
    by (simp add: axy ayx)
  have comm_mul: "max (frames_mul x y) (frames_mul y x) \<le> d \<longrightarrow> mul d [x, y] = mul d [y, x]"
    by (simp add: mxy myx)
  have assoc: "frames_add (y + z) \<le> d \<longrightarrow>
            call add d [add d [x, y], ret z] = call add d [ret x, add d [y, z]]"
    using mono by (simp only: left right) simp
  show ?thesis
    by (intro conjI) (rule axy ayx mxy myx left right comm_add comm_mul assoc)+
qed

theorem add_mul_laws_witness:
  "add 9 [3, 4] = ret 7 \<and> add 9 [4, 3] = ret 7 \<and> add 8 [4, 3] = ret 7 \<and>
   add 8 [3, 4] = raise RecursionError \<and> mul 14 [3, 4] = ret 12 \<and> mul 14 [4, 3] = ret 12 \<and>
   call add 14 [add 14 [3, 4], ret 5] = ret 12 \<and> call add 14 [ret 3, add 14 [4, 5]] = ret 12"
  using add_mul_laws [of 3 4 5 9] add_mul_laws [of 3 4 5 8] add_mul_laws [of 3 4 5 14]
  by (auto simp add: frames_add_def frames_mul_def)

text \<open>
  C7 as stated fails on large numbers: with the whole stack of the default limit
  available, \<open>add(2000, 3)\<close> and \<open>mul(2000, 3)\<close> return, and \<open>add(3, 2000)\<close> and
  \<open>mul(3, 2000)\<close> raise \<open>RecursionError\<close>.
\<close>

theorem add_mul_laws_counterexample:
  "add recursion_limit [2000, 3] = ret 2003 \<and> add recursion_limit [3, 2000] = raise RecursionError \<and>
   mul recursion_limit [3, 2000] = raise RecursionError"
  using needsD [OF needs_add [of 3 2000], of recursion_limit]
    needsD [OF needs_add [of 2000 3], of recursion_limit]
    needsD [OF needs_mul [of 3 2000], of recursion_limit]
  by (simp add: frames_add_def frames_mul_def recursion_limit_def)

text \<open>
  C9, amended: for all naturals \<open>x\<close> and \<open>y\<close>, the library's \<open>max(x, y)\<close> returns the larger
  and its \<open>min(x, y)\<close> the smaller of \<open>x\<close> and \<open>y\<close> where the frames of the call fit on the
  stack (\<open>frames_max x y\<close>, at most \<open>x + y + 8\<close>, and \<open>frames_min x y\<close>, at most
  \<open>2 (x + y) + 11\<close>); where they do not fit, the call raises \<open>RecursionError\<close>.
\<close>

theorem max_min_correct:
  assumes "0 \<le> x" and "0 \<le> y"
  shows "max_fn d [x, y] =
           (if frames_max x y \<le> d then ret (if x \<le> y then y else x) else raise RecursionError) \<and>
         min_fn d [x, y] =
           (if frames_min x y \<le> d then ret (if x \<le> y then x else y) else raise RecursionError) \<and>
         frames_max x y \<le> nat x + nat y + 8 \<and> frames_min x y \<le> 2 * (nat x + nat y) + 11"
  using needsD [OF needs_max_fn [OF assms], of d] needsD [OF needs_min_fn [OF assms], of d]
    frames_max_le [OF assms] frames_min_le [OF assms]
  by simp

theorem max_min_correct_witness:
  "max_fn 19 [3, 8] = ret 8 \<and> min_fn 33 [3, 8] = ret 3 \<and> max_fn 19 [8, 3] = ret 8 \<and>
   min_fn 33 [8, 3] = ret 3"
  using max_min_correct [of 3 8 19] max_min_correct [of 8 3 19]
    max_min_correct [of 3 8 33] max_min_correct [of 8 3 33]
  by simp

text \<open>
  C9 as stated fails on large numbers: with the whole stack of the default limit
  available, \<open>max(0, 2000)\<close> and \<open>min(0, 2000)\<close> raise \<open>RecursionError\<close>.
\<close>

theorem max_min_correct_counterexample:
  "max_fn recursion_limit [0, 2000] = raise RecursionError \<and>
   min_fn recursion_limit [0, 2000] = raise RecursionError"
proof -
  have "recursion_limit < frames_max 0 2000" "recursion_limit < frames_min 0 2000"
    by (simp_all add: frames_min_def frames_max_def frames_sub_def frames_add_def recursion_limit_def)
  with needsD [OF needs_max_fn [of 0 2000], of recursion_limit]
    needsD [OF needs_min_fn [of 0 2000], of recursion_limit]
  show ?thesis by simp
qed

text \<open>
  C10, amended: for every natural \<open>n\<close>, where at least \<open>n + 2\<close> frames fit on the stack,
  \<open>is_zero(n)\<close> and \<open>sign(n)\<close> each return \<open>0\<close> or \<open>1\<close> and the two results add up to \<open>1\<close>:
  \<open>is_zero(0)\<close> returns \<open>1\<close> and \<open>sign(0)\<close> returns \<open>0\<close>; for \<open>n > 0\<close>, \<open>is_zero(n)\<close> returns
  \<open>0\<close> and \<open>sign(n)\<close> returns \<open>1\<close>. Where fewer frames fit, both raise \<open>RecursionError\<close>.
  The library's own \<open>add\<close> of the two results returns \<open>1\<close> where its frames fit as well.
\<close>

theorem is_zero_sign_complement:
  assumes "0 \<le> n"
  shows "is_zero d [n] =
           (if nat n + 2 \<le> d then ret (if n = 0 then 1 else 0) else raise RecursionError) \<and>
         sign d [n] =
           (if nat n + 2 \<le> d then ret (if n = 0 then 0 else 1) else raise RecursionError) \<and>
         (nat n + 2 \<le> d \<longrightarrow>
            (\<exists>a b. is_zero d [n] = ret a \<and> sign d [n] = ret b \<and> a + b = 1)) \<and>
         call add d [is_zero d [n], sign d [n]] =
           (if max (nat n + 2) (if n = 0 then 4 else 6) \<le> d then ret 1 else raise RecursionError)"
proof -
  have z: "is_zero d [n] =
           (if nat n + 2 \<le> d then ret (if n = 0 then 1 else 0) else raise RecursionError)"
    using needsD [OF needs_is_zero [OF assms], of d] by (simp add: frames_is_zero_def)
  have s: "sign d [n] =
           (if nat n + 2 \<le> d then ret (if n = 0 then 0 else 1) else raise RecursionError)"
    using needsD [OF needs_sign [OF assms], of d] by (simp add: frames_is_zero_def)
  have a0: "add d [1, 0] = (if 4 \<le> d then ret 1 else raise RecursionError)"
    using needsD [OF needs_add [of 0 1], of d] by (simp add: frames_add_def)
  have a1: "add d [0, 1] = (if 6 \<le> d then ret 1 else raise RecursionError)"
    using needsD [OF needs_add [of 1 0], of d] by (simp add: frames_add_def)
  show ?thesis
    by (simp add: z s a0 a1 call_ret2 call_raise_fst ret_inject)
qed

theorem is_zero_sign_complement_witness:
  "is_zero 8 [0] = ret 1 \<and> sign 8 [0] = ret 0 \<and> is_zero 8 [6] = ret 0 \<and> sign 8 [6] = ret 1 \<and>
   is_zero 7 [6] = raise RecursionError \<and> call add 8 [is_zero 8 [6], sign 8 [6]] = ret 1"
  using is_zero_sign_complement [of 0 8] is_zero_sign_complement [of 6 8]
    is_zero_sign_complement [of 6 7]
  by auto

text \<open>
  C10 as stated fails on large numbers: with the whole stack of the default limit
  available, \<open>is_zero(2000)\<close> and \<open>sign(2000)\<close> raise \<open>RecursionError\<close>.
\<close>

theorem is_zero_sign_complement_counterexample:
  "is_zero recursion_limit [2000] = raise RecursionError \<and>
   sign recursion_limit [2000] = raise RecursionError"
  using needsD [OF needs_is_zero [of 2000], of recursion_limit]
    needsD [OF needs_sign [of 2000], of recursion_limit]
  by (simp add: frames_is_zero_def recursion_limit_def)

section \<open>Properties of the operators\<close>

text \<open>
  C2, amended: \<open>h = rec(f, g)\<close> runs its body one frame below the place of its call.
  Called where no frame fits, it raises \<open>RecursionError\<close>. Called where \<open>d + 1\<close> frames
  fit, \<open>h(0, x1, ..., xm)\<close> has the outcome of \<open>f(x1, ..., xm)\<close> where \<open>d\<close> frames fit,
  whatever \<open>g\<close> is, and, for every natural \<open>n\<close>, \<open>h(n+1, x1, ..., xm)\<close> has the outcome of
  \<open>g(n, h(n, x1, ..., xm), x1, ..., xm)\<close> where \<open>d\<close> frames fit: the step function is called
  with the predecessor, the evaluated recursive result and the extra arguments.
\<close>

theorem rec_equations:
  "rec f g 0 (n # xs) = raise RecursionError \<and>
   rec f g (Suc d) (0 # xs) = f d xs \<and>
   (0 \<le> n \<longrightarrow>
      rec f g (Suc d) ((n + 1) # xs) = call g d (ret n # rec f g d (n # xs) # map ret xs))"
  by (auto simp add: rec_def call_rec_step split: option.splits sum.splits)

theorem rec_equations_witness:
  "rec add_base add_step (Suc 8) [0, 5] = add_base 8 [5] \<and>
   rec add_base add_step (Suc 8) [3, 5] =
     call add_step 8 [ret 2, rec add_base add_step 8 [2, 5], ret 5]"
  using rec_equations [of add_base add_step 2 "[5]" 8] by simp

text \<open>
  C2 as stated fails: at one and the same place the call \<open>h(n+1, ...)\<close> needs one frame
  more than the expression \<open>g(n, h(n, ...), ...)\<close>. For \<open>pred = rec(zero, g)\<close> with
  \<open>g = lambda n, y: n\<close>, where 999 frames fit, \<open>pred(998)\<close> raises \<open>RecursionError\<close> and
  \<open>g(997, pred(997))\<close> returns \<open>997\<close>.
\<close>

theorem rec_equations_counterexample:
  "pred 999 [998] = raise RecursionError \<and>
   call (lambda2 (\<lambda>d n y. ret n)) 999 [ret 997, pred 999 [997]] = ret 997"
proof -
  have "pred 999 [998] = raise RecursionError"
    using needsD [OF needs_pred [of 998], of 999] by (simp add: frames_pred_def)
  moreover have "pred 999 [997] = ret 996"
    using needsD [OF needs_pred [of 997], of 999] by (simp add: frames_pred_def)
  moreover have "lambda2 (\<lambda>d n y. ret n) 999 [997, 996] = ret 997"
    by (simp add: lambda2_def enter_ret)
  ultimately show ?thesis by (simp add: call_ret2)
qed







text \<open>
  C4 as stated fails: \<open>sub(n, 3)\<close> is truncated subtraction of \<open>3\<close> from \<open>n\<close>, which is
  already \<open>0\<close> at \<open>n = 0\<close>, so the search over \<open>p(n) = sub(n, 3)\<close> returns \<open>3\<close> nowhere; with
  the whole stack of the default limit available it returns \<open>0\<close>.
\<close>

theorem mu_sub_three_counterexample:
  "(\<forall>d. mu (lambda1 (\<lambda>d n. sub d [n, 3])) d [] \<noteq> ret 3) \<and>
   mu (lambda1 (\<lambda>d n. sub d [n, 3])) recursion_limit [] = ret 0"
proof -
  have "needs (lambda1 (\<lambda>d n. sub d [n, 3])) [0] 9 0"
    using needs_sub_three [of 0] by (simp add: frames_sub_def monus_def)
  then have "mu (lambda1 (\<lambda>d n. sub d [n, 3])) d [] =
             (if Suc 9 \<le> d then ret 0 else raise RecursionError)" for d
    by (rule mu_first_probe)
  then show ?thesis
    by (simp add: ret_inject raise_not_ret recursion_limit_def)
qed

text \<open>
  C4, amended: \<open>mu\<close> applied to the one-argument predicate \<open>p(n) = sub(n, 3)\<close>, written
  as a lambda or with \<open>comp\<close>, returns \<open>0\<close>. With the arguments of \<open>sub\<close> exchanged,
  \<open>p(n) = sub(3, n)\<close>, the first zero is at \<open>3\<close> and \<open>mu\<close> returns \<open>3\<close>. The first two
  searches need 10 frames and the third 12; where fewer fit, they raise \<open>RecursionError\<close>.
\<close>

theorem mu_sub_three:
  "mu (lambda1 (\<lambda>d n. sub d [n, 3])) d [] = (if 10 \<le> d then ret 0 else raise RecursionError) \<and>
   mu (comp_fn sub [mkproj 0, const 3]) d [] = (if 10 \<le> d then ret 0 else raise RecursionError) \<and>
   mu (lambda1 (\<lambda>d n. sub d [3, n])) d [] = (if 12 \<le> d then ret 3 else raise RecursionError)"
proof -
  have "needs (lambda1 (\<lambda>d n. sub d [n, 3])) [0] 9 0"
    using needs_sub_three [of 0] by (simp add: frames_sub_def monus_def)
  then have "mu (lambda1 (\<lambda>d n. sub d [n, 3])) d [] =
             (if Suc 9 \<le> d then ret 0 else raise RecursionError)"
    by (rule mu_first_probe)
  moreover have "needs (comp_fn sub [mkproj 0, const 3]) [0] 9 0"
    using needs_sub_three_comp [of 0] by (simp add: frames_sub_def monus_def)
  then have "mu (comp_fn sub [mkproj 0, const 3]) d [] =
             (if Suc 9 \<le> d then ret 0 else raise RecursionError)"
    by (rule mu_first_probe)
  ultimately show ?thesis by (simp add: mu_three_sub)
qed

end
